theory Spec2Isabelle
  imports Complex_Main "HOL-Library.AList" "HOL-Library.Multiset"
begin

section \<open>SearchEngine.js: strings and library functions\<close>

text \<open>
  A JavaScript string is modelled as a \<^typ>\<open>string\<close>, one \<^typ>\<open>char\<close> per code unit.
  Names of the source that end in an underscore (\<^verbatim>\<open>normalizeText_\<close>, \<^verbatim>\<open>isIndexing_\<close>, ...)
  are written without it, since a constant cannot end in an underscore here.

  The functions the source imports from files outside \<^verbatim>\<open>SearchEngine.js\<close>, and the
  built-in string methods whose result depends on the Unicode tables, are parameters of
  the model, collected in one record.
\<close>

record strlib =
  str_normalize :: "string \<Rightarrow> string"  \<comment> \<open>\<^verbatim>\<open>String.prototype.normalize\<close>\<close>
  toLowerCase :: "string \<Rightarrow> string"  \<comment> \<open>\<^verbatim>\<open>String.prototype.toLowerCase\<close>\<close>
  trim :: "string \<Rightarrow> string"  \<comment> \<open>\<^verbatim>\<open>String.prototype.trim\<close>\<close>
  removeDiacritics :: "string \<Rightarrow> string"  \<comment> \<open>\<^verbatim>\<open>require('diacritics').remove\<close>\<close>
  scriptType :: "string \<Rightarrow> string"  \<comment> \<open>\<^verbatim>\<open>lib/string-utils.js\<close>\<close>
  pregQuote :: "string \<Rightarrow> string"  \<comment> \<open>\<^verbatim>\<open>lib/string-utils.js\<close>\<close>

text \<open>The errors the modelled code can throw.\<close>

datatype error =
  Invalid_change_type int  \<comment> \<open>\<^verbatim>\<open>new Error('Invalid change type: ' + change.type)\<close>\<close>
  | TypeError_not_a_function  \<comment> \<open>calling a value that is not a function\<close>
  | TypeError_undefined  \<comment> \<open>reading a property of \<^verbatim>\<open>undefined\<close>\<close>

definition normalizeText :: "('z strlib_scheme) \<Rightarrow> string \<Rightarrow> string" where
  "normalizeText x text0 = removeDiacritics x (toLowerCase x (str_normalize x text0))"

section \<open>The query parser\<close>

subsection \<open>The object \<^verbatim>\<open>terms\<close>\<close>

text \<open>
  \<^verbatim>\<open>terms\<close> is an ordinary object used as a dictionary from column names to arrays. Its
  own properties are kept in creation order. Assigning to the key \<^verbatim>\<open>__proto__\<close> creates no
  own property: it runs the setter inherited from \<^verbatim>\<open>Object.prototype\<close>, and the assigned
  array becomes the prototype of the object; reading the key gives that array back.
\<close>

record 'v js_object =
  own_props :: "(string \<times> 'v) list"
  proto_array :: "string list option"

definition obj_get :: "string list js_object \<Rightarrow> string \<Rightarrow> string list option" where
  "obj_get ob k = (if k = ''__proto__'' then proto_array ob else map_of (own_props ob) k)"

definition obj_set :: "string list js_object \<Rightarrow> string \<Rightarrow> string list \<Rightarrow> string list js_object" where
  "obj_set ob k v =
     (if k = ''__proto__'' then ob\<lparr>proto_array := Some v\<rparr>
      else ob\<lparr>own_props := AList.update k v (own_props ob)\<rparr>)"

text \<open>\<^verbatim>\<open>terms[k].push(t)\<close>: the array stored under \<open>k\<close> grows in place.\<close>

definition obj_push :: "string list js_object \<Rightarrow> string \<Rightarrow> string \<Rightarrow> error + string list js_object" where
  "obj_push ob k t =
     (case obj_get ob k of
        None \<Rightarrow> Inl TypeError_undefined
      | Some ts \<Rightarrow> Inr (obj_set ob k (ts @ [t])))"

text \<open>
  Enumeration order of the own keys (\<^verbatim>\<open>for (let col in terms)\<close>), as in ECMAScript 2020:
  the keys that are array indices in ascending numeric order, then the other keys in
  creation order.
\<close>

definition is_digit :: "char \<Rightarrow> bool" where
  "is_digit c = (48 \<le> (of_char c :: nat) \<and> (of_char c :: nat) \<le> 57)"

definition str_to_int :: "string \<Rightarrow> int" where
  "str_to_int s = foldl (\<lambda>n c. 10 * n + (of_char c - 48)) 0 s"

definition is_array_index :: "string \<Rightarrow> bool" where
  "is_array_index k =
     (k \<noteq> [] \<and> list_all is_digit k \<and> (k = ''0'' \<or> hd k \<noteq> CHR ''0'')
      \<and> str_to_int k < 4294967295)"

definition forin_keys :: "(string \<times> 'v) list \<Rightarrow> string list" where
  "forin_keys own =
     sort_key str_to_int (filter is_array_index (map fst own))
     @ filter (\<lambda>k. \<not> is_array_index k) (map fst own)"

subsection \<open>The scan of \<^verbatim>\<open>parseQuery\<close>\<close>

record scan_state =
  terms :: "string list js_object"
  inQuote :: bool
  currentCol :: string
  currentTerm :: string

definition scan_init :: scan_state where
  "scan_init =
     \<lparr>terms = \<lparr>own_props = [(''_'', [])], proto_array = None\<rparr>,
      inQuote = False, currentCol = ''_'', currentTerm = ''''\<rparr>"

text \<open>One iteration of the \<^verbatim>\<open>for\<close> loop over the characters of the query.\<close>

definition scan_step :: "scan_state \<Rightarrow> char \<Rightarrow> error + scan_state" where
  "scan_step s c =
     (if c = CHR 0x22 then
        (if inQuote s then
           (case obj_push (terms s) (currentCol s) (currentTerm s) of
              Inl e \<Rightarrow> Inl e
            | Inr ob \<Rightarrow> Inr (s\<lparr>terms := ob, currentTerm := '''', inQuote := False\<rparr>))
         else Inr (s\<lparr>inQuote := True\<rparr>))
      else if c = CHR '' '' \<and> \<not> inQuote s then
        (if currentTerm s = '''' then Inr s
         else
           (case obj_push (terms s) (currentCol s) (currentTerm s) of
              Inl e \<Rightarrow> Inl e
            | Inr ob \<Rightarrow> Inr (s\<lparr>terms := ob, currentCol := ''_'', currentTerm := ''''\<rparr>)))
      else if c = CHR '':'' \<and> \<not> inQuote s then
        Inr (s\<lparr>currentCol := currentTerm s,
               terms := obj_set (terms s) (currentTerm s) [],
               currentTerm := ''''\<rparr>)
      else Inr (s\<lparr>currentTerm := currentTerm s @ [c]\<rparr>))"

fun scan :: "scan_state \<Rightarrow> string \<Rightarrow> error + scan_state" where
  "scan s [] = Inr s"
| "scan s (c # cs) = (case scan_step s c of Inl e \<Rightarrow> Inl e | Inr s' \<Rightarrow> scan s' cs)"

text \<open>\<^verbatim>\<open>if (currentTerm) terms[currentCol].push(currentTerm)\<close> after the loop.\<close>

definition scan_flush :: "scan_state \<Rightarrow> error + string list js_object" where
  "scan_flush s =
     (if currentTerm s = '''' then Inr (terms s)
      else obj_push (terms s) (currentCol s) (currentTerm s))"

subsection \<open>Terms and the filter loop\<close>

datatype term_type = Text | Regex

record query_term =
  term_type :: term_type
  term_value :: string
  term_scriptType :: string
  originalValue :: string

text \<open>The set of characters a trailing wildcard must not match, as the source writes it.\<close>

definition wildcard_stop_chars :: string where
  "wildcard_stop_chars =
     [CHR '' '', CHR 0x09, CHR 0x0A, CHR 0x0D] @ '',.,+-*?!={}<>|:'' @ [CHR 0x22, CHR 0x27]
     @ ''()[]''"

definition queryTermToRegex :: "('z strlib_scheme) \<Rightarrow> string \<Rightarrow> string" where
  "queryTermToRegex x term0 =
     (let term1 = dropWhile (\<lambda>c. c = CHR ''*'') term0;
          regexString = pregQuote x term1
      in if regexString \<noteq> [] \<and> last regexString = CHR ''*''
         then take (length regexString - 2) regexString
              @ ''[^'' @ pregQuote x wildcard_stop_chars @ '']'' @ ''*?''
         else regexString)"

text \<open>
  The inner loop runs over one column from its last term to its first, removes each
  term that is exactly \<^verbatim>\<open>*\<close> and replaces every other term by its object. Removing the
  element at index \<open>i\<close> moves only elements the loop has already visited, so the terms
  that stay keep their order.
\<close>

definition make_term :: "('z strlib_scheme) \<Rightarrow> string \<Rightarrow> query_term" where
  "make_term x t =
     (if CHR ''*'' \<in> set t
      then \<lparr>term_type = Regex, term_value = queryTermToRegex x t,
            term_scriptType = scriptType x t, originalValue = t\<rparr>
      else \<lparr>term_type = Text, term_value = t,
            term_scriptType = scriptType x t, originalValue = t\<rparr>)"

fun filter_column :: "('z strlib_scheme) \<Rightarrow> string list \<Rightarrow> query_term list" where
  "filter_column x [] = []"
| "filter_column x (t # ts) =
     (if t = ''*'' then filter_column x ts else make_term x t # filter_column x ts)"

record parsed_query =
  termCount :: nat
  keys :: "string list"
  pq_terms :: "query_term list js_object"

text \<open>
  The outer loop, over the enumerated keys: a column with no term is deleted from
  \<^verbatim>\<open>terms\<close>; any other column is filtered, its length added to \<^verbatim>\<open>termCount\<close> and its
  name pushed on \<^verbatim>\<open>keys\<close>.
\<close>

fun filter_loop ::
  "('z strlib_scheme) \<Rightarrow> (string \<times> string list) list \<Rightarrow> string list \<Rightarrow> nat \<times> string list
     \<Rightarrow> nat \<times> string list" where
  "filter_loop x own [] acc = acc"
| "filter_loop x own (col # cols) (n, ks) =
     (case map_of own col of
        None \<Rightarrow> filter_loop x own cols (n, ks)
      | Some ts \<Rightarrow>
          if ts = [] then filter_loop x own cols (n, ks)
          else filter_loop x own cols (n + length (filter_column x ts), ks @ [col]))"

text \<open>
  The properties \<^verbatim>\<open>terms\<close> is left with: the columns that had a term, each with its
  filtered array, at the place where the column was created.
\<close>

definition filtered_props ::
  "('z strlib_scheme) \<Rightarrow> (string \<times> string list) list \<Rightarrow> (string \<times> query_term list) list" where
  "filtered_props x own =
     map (\<lambda>(k, ts). (k, filter_column x ts)) (filter (\<lambda>(k, ts). ts \<noteq> []) own)"

text \<open>
  The loop calls \<^verbatim>\<open>terms.hasOwnProperty(col)\<close> first. When the query has created a column
  named \<^verbatim>\<open>hasOwnProperty\<close>, that property is an array and the call throws a TypeError in
  the first iteration (there is one: a property exists).
\<close>

definition filter_terms ::
  "('z strlib_scheme) \<Rightarrow> string list js_object \<Rightarrow> error + parsed_query" where
  "filter_terms x ob =
     (if map_of (own_props ob) ''hasOwnProperty'' \<noteq> None then Inl TypeError_not_a_function
      else
        (case filter_loop x (own_props ob) (forin_keys (own_props ob)) (0, []) of
           (n, ks) \<Rightarrow>
             Inr \<lparr>termCount = n, keys = ks,
                  pq_terms = \<lparr>own_props = filtered_props x (own_props ob),
                              proto_array = proto_array ob\<rparr>\<rparr>))"

definition parse_from :: "('z strlib_scheme) \<Rightarrow> scan_state \<Rightarrow> string \<Rightarrow> error + parsed_query" where
  "parse_from x s query =
     (case scan s query of
        Inl e \<Rightarrow> Inl e
      | Inr s' \<Rightarrow> (case scan_flush s' of Inl e \<Rightarrow> Inl e | Inr ob \<Rightarrow> filter_terms x ob))"

definition parseQuery :: "('z strlib_scheme) \<Rightarrow> string \<Rightarrow> error + parsed_query" where
  "parseQuery x query = parse_from x scan_init query"

subsection \<open>A library for closed examples\<close>

text \<open>
  The library functions on ASCII text, where \<^verbatim>\<open>normalize\<close> and the removal of diacritics
  change nothing, \<^verbatim>\<open>toLowerCase\<close> maps \<^verbatim>\<open>A\<close>..\<^verbatim>\<open>Z\<close> to \<^verbatim>\<open>a\<close>..\<^verbatim>\<open>z\<close>, \<^verbatim>\<open>trim\<close> removes the
  white space at both ends, a text without CJK characters has the script type \<^verbatim>\<open>en\<close>, and
  \<^verbatim>\<open>pregQuote\<close> puts a backslash before each character that is special in a regular
  expression. It instantiates the parameters where a closed statement needs values.
\<close>

definition ascii_lower :: "char \<Rightarrow> char" where
  "ascii_lower c =
     (case map_of (zip ''ABCDEFGHIJKLMNOPQRSTUVWXYZ'' ''abcdefghijklmnopqrstuvwxyz'') c of
        None \<Rightarrow> c
      | Some l \<Rightarrow> l)"

definition ascii_space :: "char \<Rightarrow> bool" where
  "ascii_space c = ((of_char c :: nat) = 32 \<or> (9 \<le> (of_char c :: nat) \<and> (of_char c :: nat) \<le> 13))"

definition ascii_trim :: "string \<Rightarrow> string" where
  "ascii_trim s = rev (dropWhile ascii_space (rev (dropWhile ascii_space s)))"

definition regex_special :: string where
  "regex_special = ''.+*?[^]$(){}=!<>|:-'' @ [CHR 0x5C]"

definition ascii_pregQuote :: "string \<Rightarrow> string" where
  "ascii_pregQuote s = concat (map (\<lambda>c. if c \<in> set regex_special then [CHR 0x5C, c] else [c]) s)"

definition ascii_lib :: strlib where
  "ascii_lib =
     \<lparr>str_normalize = (\<lambda>s. s), toLowerCase = map ascii_lower, trim = ascii_trim,
      removeDiacritics = (\<lambda>s. s), scriptType = (\<lambda>s. ''en''), pregQuote = ascii_pregQuote\<rparr>"

section \<open>The ranker\<close>

text \<open>
  A weight is a JavaScript number. The weights the code computes are a count, or the
  quotient of a count by an integer: a rational, \<^verbatim>\<open>Infinity\<close> when a positive count is divided
  by zero, \<^verbatim>\<open>NaN\<close> for zero divided by zero. The quotient is the exact one; the rounding of
  the division to the nearest double is not part of the model. A comparison with \<^verbatim>\<open>NaN\<close>
  is false.
\<close>

datatype jsnum = Num rat | Infinity | NaN

definition js_div :: "nat \<Rightarrow> int \<Rightarrow> jsnum" where
  "js_div a b = (if b = 0 then (if a = 0 then NaN else Infinity) else Num (of_nat a / of_int b))"

fun js_lt :: "jsnum \<Rightarrow> jsnum \<Rightarrow> bool" where
  "js_lt NaN b = False"
| "js_lt a NaN = False"
| "js_lt Infinity b = False"
| "js_lt (Num a) Infinity = True"
| "js_lt (Num a) (Num b) = (a < b)"

text \<open>
  A row of the \<^verbatim>\<open>MATCH\<close> query. The column \<^verbatim>\<open>offsets\<close> is the text of SQLite's
  \<^verbatim>\<open>offsets()\<close>, integers separated by single spaces; the model holds the list of these
  integers, which is what \<^verbatim>\<open>row.offsets.split(' ').map(o => Number(o))\<close> makes of it.
\<close>

record match_row =
  row_id :: string
  row_title :: string
  offsets :: "int list"

record scored_row = match_row +
  weight :: jsnum

text \<open>
  The loop of \<^verbatim>\<open>calculateWeight_\<close>; \<open>previousDist\<close> is \<open>None\<close> for \<^verbatim>\<open>null\<close>. The index
  \<open>i * 4 + 2\<close> is within the array, since \<open>i < length offsets div 4\<close>.
\<close>

function spread_loop :: "int list \<Rightarrow> nat \<Rightarrow> nat \<Rightarrow> int \<Rightarrow> int option \<Rightarrow> int" where
  "spread_loop offs occurenceCount i spread previousDist =
     (if i < occurenceCount then
        spread_loop offs occurenceCount (i + 1)
          (case previousDist of
             None \<Rightarrow> spread
           | Some p \<Rightarrow> spread + (offs ! (i * 4 + 2) - p))
          (Some (offs ! (i * 4 + 2)))
      else spread)"
  by pat_completeness auto
termination
  by (relation "measure (\<lambda>(offs, occurenceCount, i, spread, previousDist). occurenceCount - i)") auto

declare spread_loop.simps [simp del]

definition calculateWeight :: "int list \<Rightarrow> nat \<Rightarrow> jsnum" where
  "calculateWeight offs tc =
     (let occurenceCount = length offs div 4
      in if tc = 1 then Num (of_nat occurenceCount)
         else js_div occurenceCount (spread_loop offs occurenceCount 0 0 None))"

text \<open>The comparator given to \<^verbatim>\<open>rows.sort\<close>.\<close>

definition compare_rows :: "scored_row \<Rightarrow> scored_row \<Rightarrow> int" where
  "compare_rows a b =
     (if js_lt (weight a) (weight b) then 1
      else if js_lt (weight b) (weight a) then - 1
      else 0)"

text \<open>
  \<^verbatim>\<open>Array.prototype.sort\<close> with a comparator, as a stable insertion sort: an element goes
  behind the elements it compares greater than. The language fixes the result only for a
  consistent comparator, up to the order of elements that compare equal.
\<close>

fun sort_insert :: "('a \<Rightarrow> 'a \<Rightarrow> int) \<Rightarrow> 'a \<Rightarrow> 'a list \<Rightarrow> 'a list" where
  "sort_insert cmp a [] = [a]"
| "sort_insert cmp a (b # bs) = (if cmp a b > 0 then b # sort_insert cmp a bs else a # b # bs)"

fun array_sort :: "('a \<Rightarrow> 'a \<Rightarrow> int) \<Rightarrow> 'a list \<Rightarrow> 'a list" where
  "array_sort cmp [] = []"
| "array_sort cmp (a # as) = sort_insert cmp a (array_sort cmp as)"

definition set_weight :: "nat \<Rightarrow> match_row \<Rightarrow> scored_row" where
  "set_weight tc row =
     \<lparr>row_id = row_id row, row_title = row_title row, offsets = offsets row,
      weight = calculateWeight (offsets row) tc\<rparr>"

definition orderResults :: "match_row list \<Rightarrow> parsed_query \<Rightarrow> scored_row list" where
  "orderResults rows parsedQuery =
     array_sort compare_rows (map (set_weight (termCount parsedQuery)) rows)"

text \<open>
  The spread in the words of the specification: the sum of the successive differences
  between the positions (third number of each group of four) of consecutive occurrences,
  in the order reported.
\<close>

definition occurrence_position :: "int list \<Rightarrow> nat \<Rightarrow> int" where
  "occurrence_position offs i = offs ! (4 * i + 2)"

definition spec_spread :: "int list \<Rightarrow> int" where
  "spec_spread offs =
     sum_list (map (\<lambda>i. occurrence_position offs i - occurrence_position offs (i - 1))
                   [1 ..< length offs div 4])"

definition js_ge :: "jsnum \<Rightarrow> jsnum \<Rightarrow> bool" where
  "js_ge a b = (a \<noteq> NaN \<and> b \<noteq> NaN \<and> \<not> js_lt a b)"

section \<open>The search\<close>

text \<open>
  What \<^verbatim>\<open>search\<close> reads and calls: the setting \<^verbatim>\<open>db.ftsEnabled\<close>, the answer of the
  database to a statement with its parameter (the rows, or the message of the error it
  throws), and \<^verbatim>\<open>Note.previews\<close> with the option \<^verbatim>\<open>anywherePattern\<close>. The calls a run
  makes are recorded in order.
\<close>

record 'p search_env =
  ftsEnabled :: bool
  db_selectAll :: "string \<Rightarrow> string \<Rightarrow> string + match_row list"
  Note_previews :: "string \<Rightarrow> 'p"

datatype event =
  Call_parseQuery string
  | Call_selectAll string string
  | Call_orderResults
  | Call_previews string
  | Log_warn string

datatype 'p search_value = Previews 'p | Rows "scored_row list"

text \<open>\<^verbatim>\<open>query.split(' ')\<close> and \<^verbatim>\<open>temp.join('*')\<close>.\<close>

fun js_split_space :: "string \<Rightarrow> string list" where
  "js_split_space [] = [[]]"
| "js_split_space (c # cs) =
     (if c = CHR '' '' then [] # js_split_space cs
      else (case js_split_space cs of [] \<Rightarrow> [[c]] | p # ps \<Rightarrow> (c # p) # ps))"

fun js_join :: "string \<Rightarrow> string list \<Rightarrow> string" where
  "js_join sep [] = []"
| "js_join sep [a] = a"
| "js_join sep (a # b # bs) = a @ sep @ js_join sep (b # bs)"

fun basicSearch_loop :: "('z strlib_scheme) \<Rightarrow> string list \<Rightarrow> string list \<Rightarrow> string list" where
  "basicSearch_loop x [] temp = temp"
| "basicSearch_loop x (p # ps) temp =
     (if trim x p = '''' then basicSearch_loop x ps temp
      else basicSearch_loop x ps (temp @ [trim x p]))"

definition basicSearch_pattern :: "('z strlib_scheme) \<Rightarrow> string \<Rightarrow> string" where
  "basicSearch_pattern x query =
     ''*'' @ js_join ''*'' (basicSearch_loop x (js_split_space query) []) @ ''*''"

definition basicSearch ::
  "('z strlib_scheme) \<Rightarrow> ('p, 'y) search_env_scheme \<Rightarrow> string
     \<Rightarrow> (error + 'p search_value) \<times> event list" where
  "basicSearch x env query =
     (Inr (Previews (Note_previews env (basicSearch_pattern x query))),
      [Call_previews (basicSearch_pattern x query)])"

definition match_sql :: string where
  "match_sql = ''SELECT id, title, offsets(notes_fts) AS offsets FROM notes_fts WHERE notes_fts MATCH ?''"

definition search ::
  "('z strlib_scheme) \<Rightarrow> ('p, 'y) search_env_scheme \<Rightarrow> string
     \<Rightarrow> (error + 'p search_value) \<times> event list" where
  "search x env query0 =
     (let query = normalizeText x query0;
          st = scriptType x query
      in if \<not> ftsEnabled env \<or> st \<in> set [''ja'', ''zh'', ''ko''] then basicSearch x env query
         else
           (case parseQuery x query of
              Inl e \<Rightarrow> (Inl e, [Call_parseQuery query])
            | Inr parsedQuery \<Rightarrow>
                (case db_selectAll env match_sql query of
                   Inl message \<Rightarrow>
                     (Inr (Rows []),
                      [Call_parseQuery query, Call_selectAll match_sql query,
                       Log_warn (''Cannot execute MATCH query: '' @ query @ '': '' @ message)])
                 | Inr rows \<Rightarrow>
                     (Inr (Rows (orderResults rows parsedQuery)),
                      [Call_parseQuery query, Call_selectAll match_sql query,
                       Call_orderResults]))))"

text \<open>
  The fallback pattern in the words of the specification: the query is split on white
  space, and the tokens that are not empty are joined with a wildcard between and around
  them.
\<close>

fun split_whitespace :: "string \<Rightarrow> string list" where
  "split_whitespace [] = [[]]"
| "split_whitespace (c # cs) =
     (if ascii_space c then [] # split_whitespace cs
      else (case split_whitespace cs of [] \<Rightarrow> [[c]] | p # ps \<Rightarrow> (c # p) # ps))"

definition spec_fallback_pattern :: "string \<Rightarrow> string" where
  "spec_fallback_pattern query =
     ''*'' @ js_join ''*'' (filter (\<lambda>t. t \<noteq> []) (split_whitespace query)) @ ''*''"

section \<open>The index synchronizer\<close>

subsection \<open>Tables\<close>

text \<open>
  The constants \<^verbatim>\<open>ItemChange.TYPE_CREATE\<close>, \<^verbatim>\<open>TYPE_UPDATE\<close>, \<^verbatim>\<open>TYPE_DELETE\<close> and
  \<^verbatim>\<open>BaseModel.TYPE_NOTE\<close> are declared outside \<^verbatim>\<open>SearchEngine.js\<close>. A stored type is
  modelled by the constant it is equal to, and \<open>TYPE_OTHER n\<close> is any other stored
  number \<open>n\<close>.
\<close>

datatype change_type = TYPE_CREATE | TYPE_UPDATE | TYPE_DELETE | TYPE_OTHER int

datatype model_type = TYPE_NOTE | TYPE_OTHER_MODEL int

record note_row =
  note_id :: string
  title :: string
  body :: string
  is_conflict :: bool
  encryption_applied :: bool

record item_change =
  change_id :: nat
  item_type :: model_type
  item_id :: string
  change_type :: change_type

record normalized_note =
  norm_id :: string
  norm_title :: string
  norm_body :: string

text \<open>The tables the synchronizer reads; other parts of the application write them.\<close>

record database =
  notes_table :: "note_row list"
  item_changes :: "item_change list"

text \<open>The statements the synchronizer collects in \<^verbatim>\<open>queries\<close>.\<close>

datatype query =
  Delete_normalized string  \<comment> \<open>\<^verbatim>\<open>DELETE FROM notes_normalized WHERE id = ?\<close>\<close>
  | Insert_normalized string string string
      \<comment> \<open>\<^verbatim>\<open>INSERT INTO notes_normalized(id, title, body) VALUES (?, ?, ?)\<close>\<close>

fun exec_query :: "normalized_note list \<Rightarrow> query \<Rightarrow> normalized_note list" where
  "exec_query table (Delete_normalized i) = filter (\<lambda>r. norm_id r \<noteq> i) table"
| "exec_query table (Insert_normalized i t b) =
     table @ [\<lparr>norm_id = i, norm_title = t, norm_body = b\<rparr>]"

definition transactionExecBatch :: "normalized_note list \<Rightarrow> query list \<Rightarrow> normalized_note list" where
  "transactionExecBatch table queries = foldl exec_query table queries"

text \<open>\<^verbatim>\<open>SELECT id FROM notes WHERE is_conflict = 0 AND encryption_applied = 0\<close>\<close>

definition select_note_ids :: "('z database_scheme) \<Rightarrow> string list" where
  "select_note_ids db =
     map note_id (filter (\<lambda>n. \<not> is_conflict n \<and> \<not> encryption_applied n) (notes_table db))"

text \<open>
  \<^verbatim>\<open>SELECT id, title, body FROM notes WHERE id IN (...) AND is_conflict = 0 AND
  encryption_applied = 0\<close>, the rows in the order of the table. The source writes the
  ids into the statement between double quotes; the model takes the statement to select
  the rows whose id is one of them (ids are hexadecimal and hold no quote).
\<close>

definition select_notes_in :: "('z database_scheme) \<Rightarrow> string list \<Rightarrow> note_row list" where
  "select_notes_in db ids =
     filter (\<lambda>n. note_id n \<in> set ids \<and> \<not> is_conflict n \<and> \<not> encryption_applied n) (notes_table db)"

text \<open>
  The statement of \<^verbatim>\<open>syncTables\<close> on \<^verbatim>\<open>item_changes\<close>: the changes of notes with an id
  above \<open>lastChangeId\<close>, ascending by id, at most 100 of them.
\<close>

definition select_changes :: "('z database_scheme) \<Rightarrow> nat \<Rightarrow> item_change list" where
  "select_changes db lastChangeId =
     take 100 (sort_key change_id
       (filter (\<lambda>c. item_type c = TYPE_NOTE \<and> lastChangeId < change_id c) (item_changes db)))"

text \<open>
  Modelled from the spec: \<^verbatim>\<open>ItemChange.lastChangeId\<close> of \<^verbatim>\<open>lib/models/ItemChange.js\<close>, which
  is not among the sources. It gives the current high-water mark of the change log: the
  greatest id in the log, and 0 for an empty log.
\<close>

definition lastChangeId :: "('z database_scheme) \<Rightarrow> nat" where
  "lastChangeId db = foldl max 0 (map change_id (item_changes db))"

subsection \<open>The engine\<close>

text \<open>
  The state the synchronizer owns or writes: its flag \<^verbatim>\<open>isIndexing_\<close>, the two settings
  \<^verbatim>\<open>searchEngine.initialIndexingDone\<close> and \<^verbatim>\<open>searchEngine.lastProcessedChangeId\<close>, and the
  table \<^verbatim>\<open>notes_normalized\<close>. Its calls to the logger, to \<^verbatim>\<open>ItemChange.waitForAllSaved\<close>,
  \<^verbatim>\<open>Setting.saveAll\<close> and \<^verbatim>\<open>ItemChangeUtils.deleteProcessedChanges\<close> are recorded in order.
  The tables it reads do not change during one run.
\<close>

datatype call =
  Log_info_updating
  | Call_waitForAllSaved
  | Call_saveAll
  | Call_deleteProcessedChanges
  | Log_info_updated

record engine =
  isIndexing :: bool
  initialIndexingDone :: bool
  lastProcessedChangeId :: nat
  notes_normalized :: "normalized_note list"
  calls :: "call list"

fun noteById :: "note_row list \<Rightarrow> string \<Rightarrow> note_row option" where
  "noteById [] noteId = None"
| "noteById (n # ns) noteId = (if note_id n = noteId then Some n else noteById ns noteId)"

definition normalizeNote :: "('z strlib_scheme) \<Rightarrow> note_row \<Rightarrow> note_row" where
  "normalizeNote x n0 =
     n0\<lparr>title := normalizeText x (title n0), body := normalizeText x (body n0)\<rparr>"

definition insert_query :: "('z strlib_scheme) \<Rightarrow> note_row \<Rightarrow> query" where
  "insert_query x n0 =
     Insert_normalized (note_id (normalizeNote x n0)) (title (normalizeNote x n0))
       (body (normalizeNote x n0))"

text \<open>The \<^verbatim>\<open>while (noteIds.length)\<close> loop of \<^verbatim>\<open>rebuildIndex_\<close>, 100 ids at a time.\<close>

function rebuild_loop ::
  "('z strlib_scheme) \<Rightarrow> ('y database_scheme) \<Rightarrow> string list \<Rightarrow> normalized_note list
     \<Rightarrow> normalized_note list" where
  "rebuild_loop x db noteIds table =
     (if noteIds = [] then table
      else rebuild_loop x db (drop 100 noteIds)
             (transactionExecBatch table
                (map (insert_query x) (select_notes_in db (take 100 noteIds)))))"
  by pat_completeness auto
termination
  by (relation "measure (\<lambda>(x, db, noteIds, table). length noteIds)") auto

declare rebuild_loop.simps [simp del]

definition rebuildIndex :: "('z strlib_scheme) \<Rightarrow> ('y database_scheme) \<Rightarrow> engine \<Rightarrow> engine" where
  "rebuildIndex x db s =
     s\<lparr>notes_normalized := rebuild_loop x db (select_note_ids db) [],
       lastProcessedChangeId := lastChangeId db\<rparr>"

text \<open>
  The \<^verbatim>\<open>for\<close> loop of \<^verbatim>\<open>syncTables\<close> over one batch of changes. It gives the statements and
  the local variable \<^verbatim>\<open>lastChangeId\<close>, or the error thrown.
\<close>

fun changes_loop ::
  "('z strlib_scheme) \<Rightarrow> note_row list \<Rightarrow> item_change list \<Rightarrow> query list \<Rightarrow> nat
     \<Rightarrow> error + query list \<times> nat" where
  "changes_loop x ns [] queries lastId = Inr (queries, lastId)"
| "changes_loop x ns (change # changes) queries lastId =
     (case change_type change of
        TYPE_OTHER t \<Rightarrow> Inl (Invalid_change_type t)
      | TYPE_DELETE \<Rightarrow>
          changes_loop x ns changes (queries @ [Delete_normalized (item_id change)])
            (change_id change)
      | _ \<Rightarrow>
          (case noteById ns (item_id change) of
             None \<Rightarrow>
               changes_loop x ns changes (queries @ [Delete_normalized (item_id change)])
                 (change_id change)
           | Some n0 \<Rightarrow>
               changes_loop x ns changes
                 (queries @ [Delete_normalized (item_id change),
                             Insert_normalized (item_id change) (title (normalizeNote x n0))
                               (body (normalizeNote x n0))])
                 (change_id change)))"

text \<open>
  The batch loop of \<^verbatim>\<open>syncTables\<close>. It ends: every batch is not empty and moves
  \<^verbatim>\<open>lastChangeId\<close> to the id of its last change, which lies above the previous value.
\<close>

lemma changes_loop_last:
  "changes_loop x ns changes queries lastId = Inr (qs, l) \<Longrightarrow>
   l = (if changes = [] then lastId else change_id (last changes))"
  by (induction changes arbitrary: queries lastId)
     (auto split: change_type.splits option.splits if_splits)

lemma select_changes_subset:
  "c \<in> set (select_changes db l) \<Longrightarrow> c \<in> set (item_changes db) \<and> l < change_id c"
  by (auto simp: select_changes_def dest!: in_set_takeD)

function sync_loop ::
  "('z strlib_scheme) \<Rightarrow> ('y database_scheme) \<Rightarrow> nat \<Rightarrow> engine \<Rightarrow> error option \<times> engine" where
  "sync_loop x db lastId s =
     (if select_changes db lastId = [] then (None, s)
      else
        (case changes_loop x (select_notes_in db (map item_id (select_changes db lastId)))
                (select_changes db lastId) [] lastId of
           Inl e \<Rightarrow> (Some e, s)
         | Inr (queries, lastId') \<Rightarrow>
             sync_loop x db lastId'
               (s\<lparr>notes_normalized := transactionExecBatch (notes_normalized s) queries,
                  lastProcessedChangeId := lastId',
                  calls := calls s @ [Call_saveAll]\<rparr>)))"
  by pat_completeness auto
termination
proof (relation "measure (\<lambda>(x, db, lastId, s).
          length (filter (\<lambda>c. lastId < change_id c) (item_changes db)))", goal_cases)
  case 1
  show ?case by simp
next
  case (2 x db lastId s r qs l)
  let ?cs = "select_changes db lastId"
  from 2 have l: "l = change_id (last ?cs)"
    using changes_loop_last [of x _ ?cs "[]" lastId qs l] by simp
  from 2 have "last ?cs \<in> set ?cs" by simp
  then have mem: "last ?cs \<in> set (item_changes db)" and lt: "lastId < l"
    using select_changes_subset [of "last ?cs" db lastId] l by auto
  have "filter (\<lambda>c. l < change_id c) (item_changes db) =
        filter (\<lambda>c. l < change_id c) (filter (\<lambda>c. lastId < change_id c) (item_changes db))"
    using lt by (auto intro!: filter_cong)
  moreover have "last ?cs \<in> set (filter (\<lambda>c. lastId < change_id c) (item_changes db))"
    using mem lt l by simp
  ultimately show ?case
    using length_filter_less [of "last ?cs" "filter (\<lambda>c. lastId < change_id c) (item_changes db)"
              "\<lambda>c. l < change_id c"] l
    by simp
qed

declare sync_loop.simps [simp del]

text \<open>
  \<^verbatim>\<open>syncTables\<close>: what it returns (\<open>None\<close>) or throws, and the state it leaves. A thrown
  error leaves the function at once, with the state as it is at that point.
\<close>

definition syncTables ::
  "('z strlib_scheme) \<Rightarrow> ('y database_scheme) \<Rightarrow> engine \<Rightarrow> error option \<times> engine" where
  "syncTables x db s =
     (if isIndexing s then (None, s)
      else
        (let s1 = s\<lparr>isIndexing := True,
                     calls := calls s @ [Log_info_updating, Call_waitForAllSaved]\<rparr>
         in if \<not> initialIndexingDone s1
            then (None, (rebuildIndex x db s1)\<lparr>initialIndexingDone := True, isIndexing := False\<rparr>)
            else
              (case sync_loop x db (lastProcessedChangeId s1) s1 of
                 (Some e, s2) \<Rightarrow> (Some e, s2)
               | (None, s2) \<Rightarrow>
                   (None, s2\<lparr>calls := calls s2 @ [Call_deleteProcessedChanges, Log_info_updated],
                             isIndexing := False\<rparr>))))"

text \<open>A sequence of calls of \<^verbatim>\<open>syncTables\<close>, each on the tables as they are at that time.\<close>

fun sync_runs :: "('z strlib_scheme) \<Rightarrow> ('y database_scheme) list \<Rightarrow> engine \<Rightarrow> engine list" where
  "sync_runs x [] s = []"
| "sync_runs x (db # dbs) s = snd (syncTables x db s) # sync_runs x dbs (snd (syncTables x db s))"

text \<open>
  The states between runs that the synchronizer itself produces: once the first indexing
  is done the watermark is free, and before it the watermark still has its initial value 0.
\<close>

definition watermark_inv :: "engine \<Rightarrow> bool" where
  "watermark_inv s = (initialIndexingDone s \<or> lastProcessedChangeId s = 0)"

subsection \<open>Example tables and states\<close>

definition example_rows :: "match_row list" where
  "example_rows =
     [\<lparr>row_id = ''r1'', row_title = ''far'', offsets = [0, 0, 5, 3, 0, 1, 90, 3, 1, 0, 95, 3]\<rparr>,
      \<lparr>row_id = ''r2'', row_title = ''one'', offsets = [0, 0, 7, 3]\<rparr>,
      \<lparr>row_id = ''r3'', row_title = ''near'', offsets = [0, 0, 5, 3, 0, 1, 9, 3]\<rparr>]"

definition example_query :: parsed_query where
  "example_query =
     \<lparr>termCount = 2, keys = [''_''],
      pq_terms =
        \<lparr>own_props = [(''_'', [make_term ascii_lib ''foo'', make_term ascii_lib ''bar''])],
         proto_array = None\<rparr>\<rparr>"

definition example_env :: "(note_row list) search_env" where
  "example_env =
     \<lparr>ftsEnabled = False,
      db_selectAll = (\<lambda>sql param. Inl ''malformed MATCH expression''),
      Note_previews = (\<lambda>pattern. [])\<rparr>"

definition example_notes :: "note_row list" where
  "example_notes =
     [\<lparr>note_id = ''n1'', title = ''Alpha'', body = ''One'', is_conflict = False,
       encryption_applied = False\<rparr>,
      \<lparr>note_id = ''n2'', title = ''Beta'', body = ''Two'', is_conflict = True,
       encryption_applied = False\<rparr>,
      \<lparr>note_id = ''n3'', title = ''Gamma'', body = ''Three'', is_conflict = False,
       encryption_applied = True\<rparr>]"

definition example_db :: database where
  "example_db =
     \<lparr>notes_table = example_notes,
      item_changes =
        [\<lparr>change_id = 1, item_type = TYPE_NOTE, item_id = ''n1'', change_type = TYPE_CREATE\<rparr>,
         \<lparr>change_id = 2, item_type = TYPE_NOTE, item_id = ''n2'', change_type = TYPE_UPDATE\<rparr>]\<rparr>"

definition example_db_later :: database where
  "example_db_later =
     \<lparr>notes_table = example_notes,
      item_changes =
        [\<lparr>change_id = 2, item_type = TYPE_NOTE, item_id = ''n2'', change_type = TYPE_UPDATE\<rparr>,
         \<lparr>change_id = 4, item_type = TYPE_NOTE, item_id = ''n1'', change_type = TYPE_UPDATE\<rparr>,
         \<lparr>change_id = 3, item_type = TYPE_NOTE, item_id = ''n9'', change_type = TYPE_DELETE\<rparr>]\<rparr>"

definition example_db_invalid :: database where
  "example_db_invalid =
     \<lparr>notes_table = example_notes,
      item_changes =
        [\<lparr>change_id = 5, item_type = TYPE_NOTE, item_id = ''n1'', change_type = TYPE_OTHER 99\<rparr>]\<rparr>"

definition fresh_engine :: engine where
  "fresh_engine =
     \<lparr>isIndexing = False, initialIndexingDone = False, lastProcessedChangeId = 0,
      notes_normalized = [], calls = []\<rparr>"

definition indexed_engine :: engine where
  "indexed_engine =
     \<lparr>isIndexing = False, initialIndexingDone = True, lastProcessedChangeId = 2,
      notes_normalized = [\<lparr>norm_id = ''n1'', norm_title = ''alpha'', norm_body = ''one''\<rparr>],
      calls = []\<rparr>"

section \<open>Properties of the parser\<close>

lemmas parse_defs =
  parseQuery_def parse_from_def scan_init_def scan_step_def obj_push_def obj_get_def obj_set_def
  scan_flush_def filter_terms_def forin_keys_def is_array_index_def is_digit_def
  filtered_props_def make_term_def

lemma scan_append:
  "scan s (q1 @ q2) = (case scan s q1 of Inl e \<Rightarrow> Inl e | Inr s' \<Rightarrow> scan s' q2)"
  by (induction q1 arbitrary: s) (auto split: sum.splits)

lemma obj_set_twice: "obj_set (obj_set ob k old) k v = obj_set ob k v"
  by (simp add: obj_set_def)

lemma obj_get_set: "obj_get (obj_set ob k v) k = Some v"
  by (simp add: obj_get_def obj_set_def update_Some_unfold)

lemma scan_step_colon:
  "\<not> inQuote s \<Longrightarrow>
   scan_step s (CHR '':'') =
     Inr (s\<lparr>currentCol := currentTerm s, terms := obj_set (terms s) (currentTerm s) [],
            currentTerm := ''''\<rparr>)"
  by (simp add: scan_step_def)

text \<open>
  C4. \<^verbatim>\<open>parseQuery("title:foo bar")\<close> returns \<^verbatim>\<open>termCount\<close> 2, the column \<^verbatim>\<open>title\<close> holding
  exactly one text term of value \<^verbatim>\<open>foo\<close>, and the default column \<^verbatim>\<open>_\<close> holding exactly
  one text term of value \<^verbatim>\<open>bar\<close>; there is no other column.
\<close>

theorem parseQuery_title_foo_bar:
  "parseQuery x ''title:foo bar'' =
     Inr \<lparr>termCount = 2, keys = [''_'', ''title''],
          pq_terms =
            \<lparr>own_props =
               [(''_'', [\<lparr>term_type = Text, term_value = ''bar'',
                          term_scriptType = scriptType x ''bar'', originalValue = ''bar''\<rparr>]),
                (''title'', [\<lparr>term_type = Text, term_value = ''foo'',
                              term_scriptType = scriptType x ''foo'', originalValue = ''foo''\<rparr>])],
             proto_array = None\<rparr>\<rparr>"
  by (simp add: parse_defs)

text \<open>
  C10. When the scan has read \<open>q1\<close>, is outside a quote and holds the column name in its
  buffer, the unquoted \<^verbatim>\<open>:\<close> that follows makes that name the current column and leaves
  the column with no term; the result of the whole parse is the one obtained from a state
  in which the column held any other terms \<open>old\<close>, so what had been committed to the
  column before is discarded. For \<^verbatim>\<open>title:foo title:bar\<close> the column \<^verbatim>\<open>title\<close> ends with
  the single term \<^verbatim>\<open>bar\<close> and \<^verbatim>\<open>termCount\<close> is 1.
\<close>

theorem parseQuery_column_reset:
  assumes "scan scan_init q1 = Inr s" and "\<not> inQuote s"
  shows "(\<exists>s'. scan scan_init (q1 @ '':'') = Inr s' \<and> currentCol s' = currentTerm s
            \<and> obj_get (terms s') (currentTerm s) = Some [])
         \<and> parseQuery x (q1 @ '':'' @ q2) =
             parse_from x (s\<lparr>terms := obj_set (terms s) (currentTerm s) old\<rparr>) ('':'' @ q2)
         \<and> parseQuery x ''title:foo title:bar'' =
             Inr \<lparr>termCount = 1, keys = [''title''],
                  pq_terms =
                    \<lparr>own_props =
                       [(''title'', [\<lparr>term_type = Text, term_value = ''bar'',
                                      term_scriptType = scriptType x ''bar'',
                                      originalValue = ''bar''\<rparr>])],
                     proto_array = None\<rparr>\<rparr>"
proof (intro conjI)
  show "\<exists>s'. scan scan_init (q1 @ '':'') = Inr s' \<and> currentCol s' = currentTerm s
          \<and> obj_get (terms s') (currentTerm s) = Some []"
    using assms by (simp add: scan_append scan_step_colon obj_get_set)
next
  have "scan scan_init (q1 @ '':'' @ q2) =
        scan (s\<lparr>currentCol := currentTerm s, terms := obj_set (terms s) (currentTerm s) [],
                 currentTerm := ''''\<rparr>) q2"
    using assms by (simp add: scan_append scan_step_colon)
  moreover have "scan (s\<lparr>terms := obj_set (terms s) (currentTerm s) old\<rparr>) ('':'' @ q2) =
        scan (s\<lparr>currentCol := currentTerm s, terms := obj_set (terms s) (currentTerm s) [],
                 currentTerm := ''''\<rparr>) q2"
    using assms by (simp add: scan_step_colon obj_set_twice)
  ultimately show "parseQuery x (q1 @ '':'' @ q2) =
      parse_from x (s\<lparr>terms := obj_set (terms s) (currentTerm s) old\<rparr>) ('':'' @ q2)"
    unfolding parseQuery_def parse_from_def by simp
next
  show "parseQuery x ''title:foo title:bar'' =
      Inr \<lparr>termCount = 1, keys = [''title''],
           pq_terms =
             \<lparr>own_props =
                [(''title'', [\<lparr>term_type = Text, term_value = ''bar'',
                               term_scriptType = scriptType x ''bar'',
                               originalValue = ''bar''\<rparr>])],
              proto_array = None\<rparr>\<rparr>"
    by (simp add: parse_defs)
qed

theorem parseQuery_column_reset_witness:
  "scan scan_init ''title:foo title'' =
     Inr \<lparr>terms = \<lparr>own_props = [(''_'', []), (''title'', [''foo''])], proto_array = None\<rparr>,
          inQuote = False, currentCol = ''_'', currentTerm = ''title''\<rparr>
   \<and> parseQuery ascii_lib (''title:foo title'' @ '':'' @ ''bar'') =
       parse_from ascii_lib
         \<lparr>terms = \<lparr>own_props = [(''_'', []), (''title'', [''zap'', ''zip''])], proto_array = None\<rparr>,
          inQuote = False, currentCol = ''_'', currentTerm = ''title''\<rparr>
         ('':'' @ ''bar'')"
proof -
  let ?s = "\<lparr>terms = \<lparr>own_props = [(''_'', []), (''title'', [''foo''])], proto_array = None\<rparr>,
             inQuote = False, currentCol = ''_'', currentTerm = ''title''\<rparr>"
  have h1: "scan scan_init ''title:foo title'' = Inr ?s"
    by (simp add: scan_init_def scan_step_def obj_push_def obj_get_def obj_set_def)
  have h2: "\<not> inQuote ?s"
    by simp
  from parseQuery_column_reset [OF h1 h2, of ascii_lib "''bar''" "[''zap'', ''zip'']"] h1
  show ?thesis
    by (simp add: obj_set_def)
qed

text \<open>
  A query that names a column \<^verbatim>\<open>hasOwnProperty\<close> makes the filter loop call an array:
  \<^verbatim>\<open>parseQuery\<close> throws.
\<close>

lemma parseQuery_hasOwnProperty:
  "parseQuery x ''hasOwnProperty:x'' = Inl TypeError_not_a_function"
  by (simp add: parse_defs)

section \<open>Properties of the ranker\<close>

lemma spread_loop_from:
  "0 < i \<Longrightarrow>
   spread_loop offs n i sp (Some (occurrence_position offs (i - 1))) =
   sp + sum_list (map (\<lambda>j. occurrence_position offs j - occurrence_position offs (j - 1)) [i ..< n])"
proof (induction "n - i" arbitrary: i sp)
  case 0
  then show ?case by (subst spread_loop.simps) simp
next
  case (Suc d)
  then have lt: "i < n" and d: "d = n - (i + 1)" by simp_all
  have pos: "offs ! (i * 4 + 2) = occurrence_position offs ((i + 1) - 1)"
    by (simp add: occurrence_position_def mult.commute)
  have "spread_loop offs n i sp (Some (occurrence_position offs (i - 1))) =
        spread_loop offs n (i + 1)
          (sp + (occurrence_position offs i - occurrence_position offs (i - 1)))
          (Some (occurrence_position offs ((i + 1) - 1)))"
    using lt by (subst spread_loop.simps) (simp add: occurrence_position_def mult.commute)
  also have "\<dots> = sp + (occurrence_position offs i - occurrence_position offs (i - 1))
        + sum_list (map (\<lambda>j. occurrence_position offs j - occurrence_position offs (j - 1)) [i + 1 ..< n])"
    using Suc.hyps(1) [OF d] by simp
  finally show ?case
    using lt by (simp add: upt_conv_Cons)
qed

lemma spread_loop_spec:
  "spread_loop offs (length offs div 4) 0 0 None = spec_spread offs"
proof (cases "length offs div 4 = 0")
  case True
  then show ?thesis
    by (subst spread_loop.simps) (simp add: spec_spread_def)
next
  case False
  have "spread_loop offs (length offs div 4) 0 0 None =
        spread_loop offs (length offs div 4) 1 0 (Some (occurrence_position offs (1 - 1)))"
    using False by (subst spread_loop.simps) (simp add: occurrence_position_def)
  then show ?thesis
    using spread_loop_from [of 1 offs "length offs div 4" 0] by (simp add: spec_spread_def)
qed

lemma calculateWeight_spec:
  "calculateWeight offs tc =
     (if tc = 1 then Num (of_nat (length offs div 4))
      else js_div (length offs div 4) (spec_spread offs))"
  by (simp add: calculateWeight_def spread_loop_spec)

lemma calculateWeight_not_NaN:
  "tc = 1 \<or> 4 \<le> length offs \<Longrightarrow> calculateWeight offs tc \<noteq> NaN"
proof -
  assume a: "tc = 1 \<or> 4 \<le> length offs"
  show ?thesis
  proof (cases "tc = 1")
    case True
    then show ?thesis by (simp add: calculateWeight_def)
  next
    case False
    with a have "0 < length offs div 4" by (simp add: div_greater_zero_iff)
    then show ?thesis using False by (simp add: calculateWeight_def js_div_def Let_def)
  qed
qed

lemma js_ge_trans: "js_ge a b \<Longrightarrow> js_ge b c \<Longrightarrow> js_ge a c"
  by (cases a; cases b; cases c) (auto simp: js_ge_def)

lemma js_lt_imp_ge: "js_lt a b \<Longrightarrow> js_ge b a"
  by (cases a; cases b) (auto simp: js_ge_def)

lemma not_js_lt_imp_ge: "a \<noteq> NaN \<Longrightarrow> b \<noteq> NaN \<Longrightarrow> \<not> js_lt a b \<Longrightarrow> js_ge a b"
  by (simp add: js_ge_def)

lemma mset_sort_insert: "mset (sort_insert cmp a bs) = {#a#} + mset bs"
  by (induction bs) auto

lemma mset_array_sort: "mset (array_sort cmp xs) = mset xs"
  by (induction xs) (auto simp: mset_sort_insert)

lemma set_sort_insert: "set (sort_insert cmp a bs) = insert a (set bs)"
  by (induction bs) auto

lemma set_array_sort: "set (array_sort cmp xs) = set xs"
  by (induction xs) (auto simp: set_sort_insert)

lemma sorted_sort_insert:
  assumes "weight a \<noteq> NaN" and "\<forall>b \<in> set bs. weight b \<noteq> NaN"
    and "sorted_wrt (\<lambda>a b. js_ge (weight a) (weight b)) bs"
  shows "sorted_wrt (\<lambda>a b. js_ge (weight a) (weight b)) (sort_insert compare_rows a bs)"
  using assms
proof (induction bs)
  case Nil
  then show ?case by simp
next
  case (Cons b bs)
  show ?case
  proof (cases "js_lt (weight a) (weight b)")
    case True
    then have "js_ge (weight b) (weight a)" by (rule js_lt_imp_ge)
    with True Cons show ?thesis
      by (auto simp: compare_rows_def set_sort_insert)
  next
    case False
    then have ab: "js_ge (weight a) (weight b)"
      using Cons.prems by (simp add: js_ge_def)
    have "\<forall>c \<in> set bs. js_ge (weight a) (weight c)"
      using ab Cons.prems(3) by (auto intro: js_ge_trans)
    with False ab Cons.prems show ?thesis
      by (auto simp: compare_rows_def)
  qed
qed

lemma sorted_array_sort:
  "\<forall>b \<in> set xs. weight b \<noteq> NaN \<Longrightarrow>
   sorted_wrt (\<lambda>a b. js_ge (weight a) (weight b)) (array_sort compare_rows xs)"
  by (induction xs) (auto simp: sorted_sort_insert set_array_sort)

text \<open>
  C3. For every list of offsets and every term count, the weight is the number of groups
  of four when the term count is 1, and otherwise that number divided by the spread, the
  sum of the successive differences of the positions in the order reported (\<^verbatim>\<open>Infinity\<close>
  or \<^verbatim>\<open>NaN\<close> when the spread is 0). \<^verbatim>\<open>orderResults_\<close> keeps every row, gives each its
  weight, and leaves the rows in descending order of weight; the order is stated for
  rows whose weights can be compared, that is when the term count is 1 or every row has
  at least one occurrence, since a weight \<^verbatim>\<open>NaN\<close> compares with nothing.
\<close>

theorem rank_weight_and_order:
  "calculateWeight offs tc =
     (if tc = 1 then Num (of_nat (length offs div 4))
      else js_div (length offs div 4) (spec_spread offs))
   \<and> mset (orderResults rows parsedQuery) = mset (map (set_weight (termCount parsedQuery)) rows)
   \<and> (\<forall>r \<in> set (orderResults rows parsedQuery).
         weight r = calculateWeight (offsets r) (termCount parsedQuery))
   \<and> (termCount parsedQuery = 1 \<or> (\<forall>r \<in> set rows. 4 \<le> length (offsets r))
        \<longrightarrow> sorted_wrt (\<lambda>a b. js_ge (weight a) (weight b)) (orderResults rows parsedQuery))"
proof (intro conjI impI)
  show "calculateWeight offs tc =
     (if tc = 1 then Num (of_nat (length offs div 4))
      else js_div (length offs div 4) (spec_spread offs))"
    by (rule calculateWeight_spec)
  show "mset (orderResults rows parsedQuery) = mset (map (set_weight (termCount parsedQuery)) rows)"
    by (simp add: orderResults_def mset_array_sort)
  show "\<forall>r \<in> set (orderResults rows parsedQuery).
         weight r = calculateWeight (offsets r) (termCount parsedQuery)"
    by (auto simp: orderResults_def set_array_sort set_weight_def)
next
  assume a: "termCount parsedQuery = 1 \<or> (\<forall>r \<in> set rows. 4 \<le> length (offsets r))"
  have "\<forall>b \<in> set (map (set_weight (termCount parsedQuery)) rows). weight b \<noteq> NaN"
    using a by (auto simp: set_weight_def intro!: calculateWeight_not_NaN)
  then show "sorted_wrt (\<lambda>a b. js_ge (weight a) (weight b)) (orderResults rows parsedQuery)"
    unfolding orderResults_def by (rule sorted_array_sort)
qed

lemmas rank_eval =
  orderResults_def example_rows_def example_query_def set_weight_def calculateWeight_def
  spread_loop.simps js_div_def compare_rows_def

theorem rank_weight_and_order_witness:
  "map (\<lambda>r. (row_id r, weight r)) (orderResults example_rows example_query) =
     [(''r2'', Infinity), (''r3'', Num (1 / 2)), (''r1'', Num (1 / 30))]
   \<and> sorted_wrt (\<lambda>a b. js_ge (weight a) (weight b)) (orderResults example_rows example_query)
   \<and> calculateWeight [0, 0, 5, 3, 0, 1, 90, 3, 1, 0, 95, 3] 1 = Num 3
   \<and> spec_spread [0, 0, 5, 3, 0, 1, 90, 3, 1, 0, 95, 3] = 90"
proof -
  have h: "termCount example_query = 1 \<or> (\<forall>r \<in> set example_rows. 4 \<le> length (offsets r))"
    by (simp add: example_rows_def)
  have e: "map (\<lambda>r. (row_id r, weight r)) (orderResults example_rows example_query) =
     [(''r2'', Infinity), (''r3'', Num (1 / 2)), (''r1'', Num (1 / 30))]"
    by (simp add: rank_eval)
  have w: "calculateWeight [0, 0, 5, 3, 0, 1, 90, 3, 1, 0, 95, 3] 1 = Num 3"
    by (simp add: calculateWeight_def)
  have s: "spec_spread [0, 0, 5, 3, 0, 1, 90, 3, 1, 0, 95, 3] = 90"
    by (simp add: spec_spread_def occurrence_position_def upt_conv_Cons)
  from rank_weight_and_order [of "[]" 1 example_rows example_query] h
  have "sorted_wrt (\<lambda>a b. js_ge (weight a) (weight b)) (orderResults example_rows example_query)"
    by blast
  with e w s show ?thesis
    by blast
qed

section \<open>Properties of the search\<close>

lemma basicSearch_loop_filter:
  "basicSearch_loop x ps temp = temp @ filter (\<lambda>t. t \<noteq> []) (map (trim x) ps)"
  by (induction ps arbitrary: temp) auto

lemma js_split_space_not_Nil [simp]: "js_split_space q \<noteq> []"
  by (induction q) (auto split: list.splits)

lemma js_split_space_no_space: "p \<in> set (js_split_space q) \<Longrightarrow> CHR '' '' \<notin> set p"
  by (induction q arbitrary: p) (auto split: list.splits if_splits)

lemma js_join_Cons: "ps \<noteq> [] \<Longrightarrow> js_join sep (p # ps) = p @ sep @ js_join sep ps"
  by (cases ps) auto

lemma js_join_split_space: "js_join '' '' (js_split_space q) = q"
proof (induction q)
  case Nil
  show ?case by simp
next
  case (Cons c q)
  show ?case
  proof (cases "c = CHR '' ''")
    case True
    then show ?thesis using Cons by (simp add: js_join_Cons)
  next
    case False
    obtain p ps where s: "js_split_space q = p # ps"
      by (cases "js_split_space q") auto
    show ?thesis
    proof (cases ps)
      case Nil
      with False s Cons show ?thesis by simp
    next
      case (Cons p' ps')
      with False s Cons.IH show ?thesis by simp
    qed
  qed
qed

text \<open>
  C2, as amended. When the indexed search is disabled or the script type of the
  normalized query is \<^verbatim>\<open>ja\<close>, \<^verbatim>\<open>zh\<close> or \<^verbatim>\<open>ko\<close>, \<^verbatim>\<open>search\<close> cuts the normalized query at
  every space character (the pieces hold no space, and joined with spaces they give the
  normalized query back), trims each piece, drops the empty ones, joins the rest with
  \<^verbatim>\<open>*\<close> between and around them, and asks \<^verbatim>\<open>Note.previews\<close> for that pattern. That call is
  the only one: neither \<^verbatim>\<open>parseQuery\<close> nor \<^verbatim>\<open>orderResults_\<close> runs.
\<close>

theorem search_fallback:
  assumes "\<not> ftsEnabled env \<or> scriptType x (normalizeText x query) \<in> set [''ja'', ''zh'', ''ko'']"
  shows "search x env query =
           (Inr (Previews (Note_previews env
              (''*'' @ js_join ''*'' (filter (\<lambda>t. t \<noteq> [])
                 (map (trim x) (js_split_space (normalizeText x query)))) @ ''*''))),
            [Call_previews
              (''*'' @ js_join ''*'' (filter (\<lambda>t. t \<noteq> [])
                 (map (trim x) (js_split_space (normalizeText x query)))) @ ''*'')])
         \<and> js_join '' '' (js_split_space (normalizeText x query)) = normalizeText x query
         \<and> (\<forall>p \<in> set (js_split_space (normalizeText x query)). CHR '' '' \<notin> set p)"
proof (intro conjI)
  show "search x env query =
           (Inr (Previews (Note_previews env
              (''*'' @ js_join ''*'' (filter (\<lambda>t. t \<noteq> [])
                 (map (trim x) (js_split_space (normalizeText x query)))) @ ''*''))),
            [Call_previews
              (''*'' @ js_join ''*'' (filter (\<lambda>t. t \<noteq> [])
                 (map (trim x) (js_split_space (normalizeText x query)))) @ ''*'')])"
    using assms
    by (auto simp: search_def basicSearch_def basicSearch_pattern_def basicSearch_loop_filter Let_def)
  show "js_join '' '' (js_split_space (normalizeText x query)) = normalizeText x query"
    by (rule js_join_split_space)
  show "\<forall>p \<in> set (js_split_space (normalizeText x query)). CHR '' '' \<notin> set p"
    using js_split_space_no_space by blast
qed

lemmas search_eval =
  search_def basicSearch_def basicSearch_pattern_def normalizeText_def ascii_lib_def
  ascii_lower_def ascii_trim_def ascii_space_def example_env_def spec_fallback_pattern_def

theorem search_fallback_witness:
  "\<not> ftsEnabled example_env
   \<and> search ascii_lib example_env ''Foo  Bar '' =
       (Inr (Previews []), [Call_previews ''*foo*bar*''])
   \<and> js_split_space ''foo  bar '' = [''foo'', '''', ''bar'', '''']"
proof -
  have h: "\<not> ftsEnabled example_env"
    by (simp add: example_env_def)
  then have h': "\<not> ftsEnabled example_env
      \<or> scriptType ascii_lib (normalizeText ascii_lib ''Foo  Bar '') \<in> set [''ja'', ''zh'', ''ko'']"
    by simp
  have n: "normalizeText ascii_lib ''Foo  Bar '' = ''foo  bar ''"
    by (simp add: normalizeText_def ascii_lib_def ascii_lower_def)
  have t: "trim ascii_lib = ascii_trim"
    by (simp add: ascii_lib_def)
  have p: "Note_previews example_env = (\<lambda>pattern. [])"
    by (simp add: example_env_def)
  from search_fallback [OF h'] h show ?thesis
    by (simp add: n t p ascii_trim_def ascii_space_def)
qed

text \<open>
  C2, as stated, fails. The pattern is built from the normalized query, not from the
  query as given: for \<^verbatim>\<open>A\<close> the pattern asked for is \<^verbatim>\<open>*a*\<close>, not \<^verbatim>\<open>*A*\<close>. And the query is
  cut at spaces only: a tab between \<^verbatim>\<open>a\<close> and \<^verbatim>\<open>b\<close> stays inside one token, where a split
  on white space gives \<^verbatim>\<open>*a*b*\<close>.
\<close>

theorem search_fallback_counterexample:
  "snd (search ascii_lib example_env ''A'') = [Call_previews ''*a*'']
   \<and> spec_fallback_pattern ''A'' = ''*A*''
   \<and> snd (search ascii_lib example_env ''A'') \<noteq> [Call_previews (spec_fallback_pattern ''A'')]
   \<and> snd (search ascii_lib example_env [CHR ''a'', CHR 0x09, CHR ''b'']) =
       [Call_previews [CHR ''*'', CHR ''a'', CHR 0x09, CHR ''b'', CHR ''*'']]
   \<and> spec_fallback_pattern [CHR ''a'', CHR 0x09, CHR ''b''] = ''*a*b*''
   \<and> snd (search ascii_lib example_env [CHR ''a'', CHR 0x09, CHR ''b'']) \<noteq>
       [Call_previews (spec_fallback_pattern [CHR ''a'', CHR 0x09, CHR ''b''])]"
  by (simp add: search_eval)

text \<open>
  C9. On the indexed path (full-text search enabled, script type none of \<^verbatim>\<open>ja\<close>, \<^verbatim>\<open>zh\<close>,
  \<^verbatim>\<open>ko\<close>), with a database that fails the \<^verbatim>\<open>MATCH\<close> statement: once the parser has
  returned, the statement is issued, its failure is caught, one warning is logged and the
  empty list is returned. \<^verbatim>\<open>Note.previews\<close> is never called. The parser runs before the
  \<^verbatim>\<open>try\<close> block: if it throws, the statement is not issued at all.
\<close>

theorem search_match_failure:
  assumes "ftsEnabled env"
    and "scriptType x (normalizeText x query) \<notin> set [''ja'', ''zh'', ''ko'']"
    and "db_selectAll env match_sql (normalizeText x query) = Inl message"
  shows "(case parseQuery x (normalizeText x query) of
            Inl e \<Rightarrow> search x env query = (Inl e, [Call_parseQuery (normalizeText x query)])
          | Inr parsedQuery \<Rightarrow>
              search x env query =
                (Inr (Rows []),
                 [Call_parseQuery (normalizeText x query),
                  Call_selectAll match_sql (normalizeText x query),
                  Log_warn (''Cannot execute MATCH query: '' @ normalizeText x query @ '': ''
                            @ message)]))
         \<and> (\<forall>p. Call_previews p \<notin> set (snd (search x env query)))"
  using assms by (auto simp: search_def Let_def split: sum.splits)

theorem search_match_failure_witness:
  "ftsEnabled (example_env\<lparr>ftsEnabled := True\<rparr>)
   \<and> scriptType ascii_lib (normalizeText ascii_lib ''Foo AND'') = ''en''
   \<and> db_selectAll (example_env\<lparr>ftsEnabled := True\<rparr>) match_sql (normalizeText ascii_lib ''Foo AND'')
       = Inl ''malformed MATCH expression''
   \<and> search ascii_lib (example_env\<lparr>ftsEnabled := True\<rparr>) ''Foo AND'' =
       (Inr (Rows []),
        [Call_parseQuery ''foo and'', Call_selectAll match_sql ''foo and'',
         Log_warn ''Cannot execute MATCH query: foo and: malformed MATCH expression''])"
proof -
  have h1: "ftsEnabled (example_env\<lparr>ftsEnabled := True\<rparr>)"
    by simp
  have h2: "scriptType ascii_lib (normalizeText ascii_lib ''Foo AND'') \<notin> set [''ja'', ''zh'', ''ko'']"
    by (simp add: ascii_lib_def)
  have h3: "db_selectAll (example_env\<lparr>ftsEnabled := True\<rparr>) match_sql (normalizeText ascii_lib ''Foo AND'')
       = Inl ''malformed MATCH expression''"
    by (simp add: example_env_def)
  have n: "normalizeText ascii_lib ''Foo AND'' = ''foo and''"
    by (simp add: normalizeText_def ascii_lib_def ascii_lower_def)
  have p: "parseQuery ascii_lib ''foo and'' =
      Inr \<lparr>termCount = 2, keys = [''_''],
           pq_terms = \<lparr>own_props = [(''_'', [make_term ascii_lib ''foo'', make_term ascii_lib ''and''])],
                       proto_array = None\<rparr>\<rparr>"
    by (simp add: parse_defs)
  have s: "scriptType ascii_lib (normalizeText ascii_lib ''Foo AND'') = ''en''"
    by (simp add: ascii_lib_def)
  from search_match_failure [OF h1 h2 h3] h1 h3 s show ?thesis
    by (simp add: n p)
qed

section \<open>Properties of the synchronizer\<close>

lemma rebuild_loop_Cons:
  "rebuild_loop x db (i # ids) table =
   rebuild_loop x db (drop 100 (i # ids))
     (transactionExecBatch table (map (insert_query x) (select_notes_in db (take 100 (i # ids)))))"
  by (subst rebuild_loop.simps) simp

lemmas sync_eval =
  syncTables_def rebuildIndex_def select_note_ids_def lastChangeId_def rebuild_loop_Cons
  select_changes_def select_notes_in_def transactionExecBatch_def insert_query_def
  normalizeNote_def normalizeText_def ascii_lib_def ascii_lower_def
  example_db_def example_db_later_def example_db_invalid_def example_notes_def
  fresh_engine_def indexed_engine_def

lemma rebuild_loop_Nil [simp]: "rebuild_loop x db [] table = table"
  by (subst rebuild_loop.simps) simp

lemma exec_inserts:
  "transactionExecBatch table (map (insert_query x) ns) =
   table @ map (\<lambda>n. \<lparr>norm_id = note_id n, norm_title = normalizeText x (title n),
                       norm_body = normalizeText x (body n)\<rparr>) ns"
  unfolding transactionExecBatch_def
  by (induction ns arbitrary: table) (simp_all add: insert_query_def normalizeNote_def)

lemma batch_ids:
  "map norm_id (transactionExecBatch table (map (insert_query x) ns)) =
   map norm_id table @ map note_id ns"
  by (simp add: exec_inserts comp_def)

lemma rebuild_loop_ids:
  "set (map norm_id (rebuild_loop x db ids table)) =
   set (map norm_id table) \<union>
   {i \<in> set ids. \<exists>n \<in> set (notes_table db). note_id n = i \<and> \<not> is_conflict n \<and> \<not> encryption_applied n}"
proof (induction x db ids table rule: rebuild_loop.induct)
  case (1 x db noteIds table)
  show ?case
  proof (cases "noteIds = []")
    case True
    then show ?thesis by simp
  next
    case False
    have split: "set noteIds = set (take 100 noteIds) \<union> set (drop 100 noteIds)"
      by (metis append_take_drop_id set_append)
    have sel: "set (map note_id (select_notes_in db (take 100 noteIds))) =
       {i \<in> set (take 100 noteIds). \<exists>n \<in> set (notes_table db). note_id n = i \<and> \<not> is_conflict n \<and> \<not> encryption_applied n}"
      by (auto simp: select_notes_in_def)
    show ?thesis
      using False "1.IH" [OF False] sel split
      by (subst rebuild_loop.simps) (auto simp: batch_ids)
  qed
qed

lemma rebuild_loop_distinct:
  "distinct (map note_id (notes_table db)) \<Longrightarrow> distinct ids \<Longrightarrow> distinct (map norm_id table) \<Longrightarrow>
   set (map norm_id table) \<inter> set ids = {} \<Longrightarrow>
   distinct (map norm_id (rebuild_loop x db ids table))"
proof (induction x db ids table rule: rebuild_loop.induct)
  case (1 x db noteIds table)
  show ?case
  proof (cases "noteIds = []")
    case True
    then show ?thesis using "1.prems" by simp
  next
    case False
    let ?new = "select_notes_in db (take 100 noteIds)"
    let ?table = "transactionExecBatch table (map (insert_query x) ?new)"
    have d1: "distinct (map note_id ?new)"
      using "1.prems"(1) by (simp add: select_notes_in_def distinct_map_filter)
    have sub: "set (map note_id ?new) \<subseteq> set (take 100 noteIds)"
      by (auto simp: select_notes_in_def)
    have tk: "set (take 100 noteIds) \<subseteq> set noteIds"
      by (rule set_take_subset)
    have dr: "set (drop 100 noteIds) \<subseteq> set noteIds"
      by (rule set_drop_subset)
    have disj: "set (take 100 noteIds) \<inter> set (drop 100 noteIds) = {}"
      using "1.prems"(2) by (metis append_take_drop_id distinct_append)
    have a: "distinct (drop 100 noteIds)"
      using "1.prems"(2) by simp
    have b: "distinct (map norm_id ?table)"
      using d1 sub tk "1.prems"(3,4) by (auto simp: batch_ids)
    have c: "set (map norm_id ?table) \<inter> set (drop 100 noteIds) = {}"
      using sub dr disj "1.prems"(4) by (auto simp: batch_ids)
    show ?thesis
      using "1.IH" [OF False "1.prems"(1) a b c] False
      by (subst rebuild_loop.simps) simp
  qed
qed

text \<open>
  C6. The ids of the table \<^verbatim>\<open>notes\<close> are distinct (\<^verbatim>\<open>id\<close> is its key). After
  \<^verbatim>\<open>rebuildIndex_\<close> the ids in \<^verbatim>\<open>notes_normalized\<close> are exactly the ids of the notes that
  are neither in conflict nor encrypted, and no id occurs in two rows.
\<close>

theorem rebuildIndex_coverage:
  assumes "distinct (map note_id (notes_table db))"
  shows "set (map norm_id (notes_normalized (rebuildIndex x db s))) =
           {note_id n | n. n \<in> set (notes_table db) \<and> \<not> is_conflict n \<and> \<not> encryption_applied n}
         \<and> distinct (map norm_id (notes_normalized (rebuildIndex x db s)))"
proof
  show "set (map norm_id (notes_normalized (rebuildIndex x db s))) =
           {note_id n | n. n \<in> set (notes_table db) \<and> \<not> is_conflict n \<and> \<not> encryption_applied n}"
    unfolding rebuildIndex_def
    by (simp add: rebuild_loop_ids del: set_map) (auto simp: select_note_ids_def)
  have "distinct (select_note_ids db)"
    using assms by (simp add: select_note_ids_def distinct_map_filter)
  then show "distinct (map norm_id (notes_normalized (rebuildIndex x db s)))"
    unfolding rebuildIndex_def using assms by (simp add: rebuild_loop_distinct)
qed

theorem rebuildIndex_coverage_witness:
  "distinct (map note_id (notes_table example_db))
   \<and> map norm_id (notes_normalized (rebuildIndex ascii_lib example_db fresh_engine)) = [''n1'']
   \<and> {note_id n | n. n \<in> set (notes_table example_db) \<and> \<not> is_conflict n
         \<and> \<not> encryption_applied n} = {''n1''}"
proof -
  have h: "distinct (map note_id (notes_table example_db))"
    by (simp add: example_db_def example_notes_def)
  have e: "map norm_id (notes_normalized (rebuildIndex ascii_lib example_db fresh_engine)) = [''n1'']"
    by (simp add: sync_eval)
  from rebuildIndex_coverage [OF h, of ascii_lib fresh_engine] e h show ?thesis
    by simp
qed

lemma select_notes_in_changes [simp]:
  "select_notes_in (db\<lparr>item_changes := cs\<rparr>) ids = select_notes_in db ids"
  by (simp add: select_notes_in_def)

lemma rebuild_loop_changes:
  "rebuild_loop x (db\<lparr>item_changes := cs\<rparr>) ids table = rebuild_loop x db ids table"
proof (induction x db ids table rule: rebuild_loop.induct)
  case (1 x db noteIds table)
  show ?case
  proof (cases "noteIds = []")
    case True
    then show ?thesis by simp
  next
    case False
    then show ?thesis
      using "1.IH" [OF False]
      by (subst rebuild_loop.simps, subst (2) rebuild_loop.simps) simp
  qed
qed

text \<open>
  C7. A second \<^verbatim>\<open>rebuildIndex_\<close> on the same notes, whatever the change log has become,
  leaves the same rows in \<^verbatim>\<open>notes_normalized\<close> as the first; the rows do not depend on
  what the table held before the run (a partial earlier rebuild); and on unchanged tables
  the second run changes nothing at all.
\<close>

theorem rebuildIndex_idempotent:
  "notes_normalized (rebuildIndex x (db\<lparr>item_changes := cs\<rparr>) (rebuildIndex x db s)) =
     notes_normalized (rebuildIndex x db s)
   \<and> notes_normalized (rebuildIndex x db (s\<lparr>notes_normalized := partial\<rparr>)) =
     notes_normalized (rebuildIndex x db s)
   \<and> rebuildIndex x db (rebuildIndex x db s) = rebuildIndex x db s"
  by (simp add: rebuildIndex_def rebuild_loop_changes select_note_ids_def)

text \<open>
  C8. A call of \<^verbatim>\<open>syncTables\<close> while \<^verbatim>\<open>isIndexing_\<close> is set returns at once and leaves the
  whole state as it was: the watermark, the table \<^verbatim>\<open>notes_normalized\<close>, the flag of the
  initial indexing, and no call is made.
\<close>

theorem syncTables_guard:
  "isIndexing s \<Longrightarrow> syncTables x db s = (None, s)"
  by (simp add: syncTables_def)

theorem syncTables_guard_witness:
  "isIndexing (indexed_engine\<lparr>isIndexing := True\<rparr>)
   \<and> syncTables ascii_lib example_db_later (indexed_engine\<lparr>isIndexing := True\<rparr>) =
       (None, indexed_engine\<lparr>isIndexing := True\<rparr>)"
proof -
  have h: "isIndexing (indexed_engine\<lparr>isIndexing := True\<rparr>)"
    by simp
  from syncTables_guard [OF h, of ascii_lib example_db_later] h show ?thesis
    by simp
qed

lemma sync_loop_watermark:
  "sync_loop x db lastId s = (r, s') \<Longrightarrow> lastProcessedChangeId s \<le> lastId \<Longrightarrow>
   lastProcessedChangeId s \<le> lastProcessedChangeId s'
   \<and> initialIndexingDone s' = initialIndexingDone s \<and> isIndexing s' = isIndexing s"
proof (induction x db lastId s arbitrary: r s' rule: sync_loop.induct)
  case (1 x db lastId s)
  let ?cs = "select_changes db lastId"
  show ?case
  proof (cases "?cs = []")
    case True
    with "1.prems" show ?thesis by (subst (asm) sync_loop.simps) simp
  next
    case False
    show ?thesis
    proof (cases "changes_loop x (select_notes_in db (map item_id ?cs)) ?cs [] lastId")
      case (Inl e)
      with False "1.prems" show ?thesis by (subst (asm) sync_loop.simps) simp
    next
      case (Inr p)
      obtain qs l where p: "p = (qs, l)" by (cases p)
      let ?s1 = "s\<lparr>notes_normalized := transactionExecBatch (notes_normalized s) qs,
                    lastProcessedChangeId := l, calls := calls s @ [Call_saveAll]\<rparr>"
      have l: "l = change_id (last ?cs)"
        using changes_loop_last [of x _ ?cs "[]" lastId qs l] Inr p False by simp
      have "last ?cs \<in> set ?cs" using False by simp
      then have lt: "lastId < l"
        using select_changes_subset [of "last ?cs" db lastId] l by simp
      have run: "sync_loop x db l ?s1 = (r, s')"
        using "1.prems"(1) False Inr p by (subst (asm) sync_loop.simps) simp
      have "lastProcessedChangeId ?s1 \<le> lastProcessedChangeId s'
            \<and> initialIndexingDone s' = initialIndexingDone ?s1 \<and> isIndexing s' = isIndexing ?s1"
        using "1.IH" [OF False Inr p [symmetric] run] by simp
      then show ?thesis using lt "1.prems"(2) by simp
    qed
  qed
qed

lemma syncTables_watermark:
  assumes "watermark_inv s"
  shows "lastProcessedChangeId s \<le> lastProcessedChangeId (snd (syncTables x db s))
         \<and> watermark_inv (snd (syncTables x db s))"
proof (cases "isIndexing s")
  case True
  then show ?thesis using assms by (simp add: syncTables_def)
next
  case idle: False
  show ?thesis
  proof (cases "initialIndexingDone s")
    case False
    then show ?thesis
      using assms idle by (simp add: syncTables_def rebuildIndex_def watermark_inv_def)
  next
    case True
    let ?s1 = "s\<lparr>isIndexing := True, calls := calls s @ [Log_info_updating, Call_waitForAllSaved]\<rparr>"
    obtain r s2 where run: "sync_loop x db (lastProcessedChangeId ?s1) ?s1 = (r, s2)"
      by (cases "sync_loop x db (lastProcessedChangeId ?s1) ?s1")
    from sync_loop_watermark [OF run]
    have "lastProcessedChangeId s \<le> lastProcessedChangeId s2 \<and> initialIndexingDone s2"
      using True by simp
    then show ?thesis
      using idle True run by (cases r) (simp_all add: syncTables_def watermark_inv_def)
  qed
qed

lemma sync_runs_watermark:
  "watermark_inv s \<Longrightarrow>
   sorted (map lastProcessedChangeId (sync_runs x dbs s))
   \<and> (\<forall>s' \<in> set (sync_runs x dbs s). lastProcessedChangeId s \<le> lastProcessedChangeId s')"
proof (induction dbs arbitrary: s)
  case Nil
  then show ?case by simp
next
  case (Cons db dbs)
  let ?s1 = "snd (syncTables x db s)"
  from syncTables_watermark [OF Cons.prems, of x db]
  have le: "lastProcessedChangeId s \<le> lastProcessedChangeId ?s1" and inv: "watermark_inv ?s1"
    by simp_all
  from Cons.IH [OF inv] le show ?case
    by (auto intro: order_trans)
qed

lemma select_changes_sorted:
  "sorted (map change_id (select_changes db w))"
  unfolding select_changes_def
  by (simp add: take_map [symmetric] sorted_wrt_take del: take_map)

text \<open>
  C5. From a state between runs, along any sequence of calls of \<^verbatim>\<open>syncTables\<close>, each on
  the tables of its time, the watermark \<^verbatim>\<open>searchEngine.lastProcessedChangeId\<close> never
  decreases. The changes of one batch come in ascending order of id, all above the
  current watermark, and a batch that goes through sets the watermark to the id of its
  last change before the loop goes on.
\<close>

theorem watermark_never_decreases:
  assumes "watermark_inv s"
  shows "sorted (map lastProcessedChangeId (s # sync_runs x dbs s))
         \<and> sorted (map change_id (select_changes db w))
         \<and> (\<forall>c \<in> set (select_changes db w). w < change_id c)
         \<and> (select_changes db w \<noteq> []
              \<and> changes_loop x (select_notes_in db (map item_id (select_changes db w)))
                    (select_changes db w) [] w = Inr (qs, l)
              \<longrightarrow> l = change_id (last (select_changes db w))
                  \<and> sync_loop x db w e =
                      sync_loop x db l
                        (e\<lparr>notes_normalized := transactionExecBatch (notes_normalized e) qs,
                           lastProcessedChangeId := l,
                           calls := calls e @ [Call_saveAll]\<rparr>))"
proof (intro conjI impI)
  show "sorted (map lastProcessedChangeId (s # sync_runs x dbs s))"
    using sync_runs_watermark [OF assms, of x dbs] by simp
  show "sorted (map change_id (select_changes db w))"
    by (rule select_changes_sorted)
  show "\<forall>c \<in> set (select_changes db w). w < change_id c"
    using select_changes_subset by blast
next
  assume a: "select_changes db w \<noteq> []
             \<and> changes_loop x (select_notes_in db (map item_id (select_changes db w)))
                  (select_changes db w) [] w = Inr (qs, l)"
  then show "l = change_id (last (select_changes db w))"
    using changes_loop_last
            [of x "select_notes_in db (map item_id (select_changes db w))"
               "select_changes db w" "[]" w qs l]
    by simp
  from a show "sync_loop x db w e =
      sync_loop x db l
        (e\<lparr>notes_normalized := transactionExecBatch (notes_normalized e) qs,
           lastProcessedChangeId := l,
           calls := calls e @ [Call_saveAll]\<rparr>)"
    by (subst sync_loop.simps) simp
qed

theorem watermark_never_decreases_witness:
  "watermark_inv fresh_engine
   \<and> map lastProcessedChangeId
       (fresh_engine # sync_runs ascii_lib [example_db, example_db_later, example_db_invalid]
          fresh_engine) = [0, 2, 4, 4]
   \<and> sorted (map lastProcessedChangeId
       (fresh_engine # sync_runs ascii_lib [example_db, example_db_later, example_db_invalid]
          fresh_engine))
   \<and> map change_id (select_changes example_db_later 2) = [3, 4]
   \<and> changes_loop ascii_lib
        (select_notes_in example_db_later (map item_id (select_changes example_db_later 2)))
        (select_changes example_db_later 2) [] 2 =
      Inr ([Delete_normalized ''n9'', Delete_normalized ''n1'',
            Insert_normalized ''n1'' ''alpha'' ''one''], 4)"
proof -
  have h: "watermark_inv fresh_engine"
    by (simp add: watermark_inv_def fresh_engine_def)
  have r: "map lastProcessedChangeId
       (fresh_engine # sync_runs ascii_lib [example_db, example_db_later, example_db_invalid]
          fresh_engine) = [0, 2, 4, 4]"
    by (simp add: sync_eval sync_loop.simps)
  have c: "map change_id (select_changes example_db_later 2) = [3, 4]"
    by (simp add: sync_eval)
  have b: "changes_loop ascii_lib
        (select_notes_in example_db_later (map item_id (select_changes example_db_later 2)))
        (select_changes example_db_later 2) [] 2 =
      Inr ([Delete_normalized ''n9'', Delete_normalized ''n1'',
            Insert_normalized ''n1'' ''alpha'' ''one''], 4)"
    by (simp add: sync_eval)
  from watermark_never_decreases
         [OF h, of ascii_lib "[example_db, example_db_later, example_db_invalid]"
            example_db_later 2 _ 4 fresh_engine]
  have "sorted (map lastProcessedChangeId
       (fresh_engine # sync_runs ascii_lib [example_db, example_db_later, example_db_invalid]
          fresh_engine))"
    by blast
  with h r c b show ?thesis
    by blast
qed

lemma syncTables_error_keeps_guard:
  assumes "syncTables x db s = (Some e, s')"
  shows "isIndexing s'"
proof (cases "isIndexing s")
  case True
  with assms show ?thesis by (simp add: syncTables_def)
next
  case idle: False
  let ?s1 = "s\<lparr>isIndexing := True, calls := calls s @ [Log_info_updating, Call_waitForAllSaved]\<rparr>"
  obtain r s2 where run: "sync_loop x db (lastProcessedChangeId ?s1) ?s1 = (r, s2)"
    by (cases "sync_loop x db (lastProcessedChangeId ?s1) ?s1")
  from sync_loop_watermark [OF run] have g: "isIndexing s2"
    by simp
  from assms idle run have "initialIndexingDone s"
    by (cases "initialIndexingDone s") (simp_all add: syncTables_def)
  with assms idle run g show ?thesis
    by (cases r) (simp_all add: syncTables_def)
qed

text \<open>
  C1. A change whose type is none of the three constants makes \<^verbatim>\<open>syncTables\<close> throw the
  error \<^verbatim>\<open>Invalid change type: 99\<close> to its caller. The statement \<^verbatim>\<open>throw\<close> leaves the function
  with \<^verbatim>\<open>isIndexing_\<close> still set, and the next call, on any tables, returns at once without
  doing anything.
\<close>

theorem syncTables_invalid_change_type:
  "syncTables x example_db_invalid indexed_engine =
     (Some (Invalid_change_type 99),
      indexed_engine\<lparr>isIndexing := True, calls := [Log_info_updating, Call_waitForAllSaved]\<rparr>)
   \<and> isIndexing (snd (syncTables x example_db_invalid indexed_engine))
   \<and> syncTables x db (snd (syncTables x example_db_invalid indexed_engine)) =
       (None, snd (syncTables x example_db_invalid indexed_engine))"
proof -
  have e: "syncTables x example_db_invalid indexed_engine =
     (Some (Invalid_change_type 99),
      indexed_engine\<lparr>isIndexing := True, calls := [Log_info_updating, Call_waitForAllSaved]\<rparr>)"
    by (simp add: sync_eval sync_loop.simps)
  then show ?thesis
    by (simp add: syncTables_def)
qed

end
